theory Spec2Isabelle
  imports Complex_Main
begin

section \<open>The Python objects that py\_validator handles\<close>

text \<open>
  The validator receives two Python objects, the data (\<open>given\<close>) and the scheme
  (\<open>expected\<close>), both from the same universe: the code compares them with \<open>==\<close>.
  The universe modelled here:
  \<^item> \<open>None\<close>, \<open>bool\<close>, \<open>int\<close> (unbounded), \<open>float\<close> (a finite double, denoted by its exact
    rational value; NaN and the infinities are not modelled), \<open>str\<close>;
  \<^item> \<open>list\<close>, \<open>tuple\<close>, \<open>set\<close>, \<open>frozenset\<close> (each with its elements in iteration order) and
    \<open>dict\<close> (its items in insertion order);
  \<^item> type objects (\<open>int\<close>, \<open>float\<close>, \<open>str\<close>, ...);
  \<^item> instances of the classes \<open>Or\<close>, \<open>And\<close>, \<open>ListOf\<close>, \<open>Optional\<close> of the module. These classes
    define no \<open>__eq__\<close>, so \<open>==\<close> on them is object identity: each instance carries the
    identity (a number) of the object;
  \<^item> callables that are not types: a function, lambda, bound method or callable instance,
    given by its identity, and by the arity and the name that \<open>funcInfo\<close> reads from its
    code object. What the callable computes is given by the host (see \<open>host\<close> below).
\<close>

datatype pytype =
    TNoneType | TBool | TInt | TFloat | TStr
  | TList | TTuple | TSet | TFrozenset | TDict
  | TType | TFunction | TOr | TAnd | TListOf | TOptional

datatype obj =
    PNone
  | PBool bool
  | PInt int
  | PFloat rat
  | PStr string
  | PList "obj list"
  | PTuple "obj list"
  | PSet "obj list"
  | PFrozenset "obj list"
  | PDict "(obj \<times> obj) list"
  | PType pytype
  | POr nat "obj list"
  | PAnd nat "obj list"
  | PListOf nat obj
  | POptional nat obj
  | PFunc nat int string

text \<open>Exceptions (all subclasses of \<open>Exception\<close>), with the text \<open>str(e)\<close> gives.\<close>

datatype exn =
    TypeError string
  | OverflowError string
  | Raised string

fun exn_str :: "exn \<Rightarrow> string" where
  "exn_str (TypeError m) = m"
| "exn_str (OverflowError m) = m"
| "exn_str (Raised m) = m"

text \<open>
  What a validation function returns: a \<open>ForceValue\<close>, an \<open>Error\<close> (with its message), or any
  other object.
\<close>

datatype outcome =
    ForceValue obj
  | Error string
  | Other obj

text \<open>
  The host: what calling a callable returns or raises (the callable is found by its
  identity and receives its positional arguments), and the text of \<open>'%s' % x\<close> for an object.
  Callables are deterministic functions of their arguments here: a callable that keeps a
  context between calls is not modelled.
\<close>

record host =
  call :: "nat \<Rightarrow> obj list \<Rightarrow> exn + outcome"
  str_of :: "obj \<Rightarrow> string"

text \<open>
  An entry of the report: the pair \<open>(path, message)\<close>, the triple \<open>(path, message, value)\<close>,
  or the triple \<open>(path, 'failure', e)\<close> whose third component is the exception object caught
  by \<open>sub\<close>.
\<close>

datatype diag =
    Diag2 string string
  | Diag3 string string obj
  | DiagF string exn

section \<open>Built-in operations of the host language\<close>

subsection \<open>\<open>type(x)\<close> and \<open>T.__name__\<close>\<close>

fun type_of :: "obj \<Rightarrow> pytype" where
  "type_of PNone = TNoneType"
| "type_of (PBool _) = TBool"
| "type_of (PInt _) = TInt"
| "type_of (PFloat _) = TFloat"
| "type_of (PStr _) = TStr"
| "type_of (PList _) = TList"
| "type_of (PTuple _) = TTuple"
| "type_of (PSet _) = TSet"
| "type_of (PFrozenset _) = TFrozenset"
| "type_of (PDict _) = TDict"
| "type_of (PType _) = TType"
| "type_of (POr _ _) = TOr"
| "type_of (PAnd _ _) = TAnd"
| "type_of (PListOf _ _) = TListOf"
| "type_of (POptional _ _) = TOptional"
| "type_of (PFunc _ _ _) = TFunction"

fun type_name :: "pytype \<Rightarrow> string" where
  "type_name TNoneType = ''NoneType''"
| "type_name TBool = ''bool''"
| "type_name TInt = ''int''"
| "type_name TFloat = ''float''"
| "type_name TStr = ''str''"
| "type_name TList = ''list''"
| "type_name TTuple = ''tuple''"
| "type_name TSet = ''set''"
| "type_name TFrozenset = ''frozenset''"
| "type_name TDict = ''dict''"
| "type_name TType = ''type''"
| "type_name TFunction = ''function''"
| "type_name TOr = ''Or''"
| "type_name TAnd = ''And''"
| "type_name TListOf = ''ListOf''"
| "type_name TOptional = ''Optional''"

subsection \<open>\<open>x == y\<close>\<close>

text \<open>
  Numbers compare by value across \<open>bool\<close>, \<open>int\<close> and \<open>float\<close>; a list equals a list and a
  tuple a tuple, element by element; \<open>set\<close> and \<open>frozenset\<close> compare as sets (same size, and
  each element of the left one in the right one); dictionaries have the same size and
  each key of the left one is in the right one with an equal value; instances and
  callables are equal when they are the same object.
\<close>

fun num_val :: "obj \<Rightarrow> rat option" where
  "num_val (PBool b) = Some (if b then 1 else 0)"
| "num_val (PInt i) = Some (of_int i)"
| "num_val (PFloat r) = Some r"
| "num_val _ = None"

fun py_eq :: "obj \<Rightarrow> obj \<Rightarrow> bool" where
  "py_eq PNone y = (y = PNone)"
| "py_eq (PBool b) y = (num_val y = Some (if b then 1 else 0))"
| "py_eq (PInt i) y = (num_val y = Some (of_int i))"
| "py_eq (PFloat r) y = (num_val y = Some r)"
| "py_eq (PStr s) y = (y = PStr s)"
| "py_eq (PList xs) y = (case y of PList ys \<Rightarrow> list_all2 py_eq xs ys | _ \<Rightarrow> False)"
| "py_eq (PTuple xs) y = (case y of PTuple ys \<Rightarrow> list_all2 py_eq xs ys | _ \<Rightarrow> False)"
| "py_eq (PSet xs) y =
     (case y of
        PSet ys \<Rightarrow> length xs = length ys \<and> list_all (\<lambda>x. list_ex (py_eq x) ys) xs
      | PFrozenset ys \<Rightarrow> length xs = length ys \<and> list_all (\<lambda>x. list_ex (py_eq x) ys) xs
      | _ \<Rightarrow> False)"
| "py_eq (PFrozenset xs) y =
     (case y of
        PSet ys \<Rightarrow> length xs = length ys \<and> list_all (\<lambda>x. list_ex (py_eq x) ys) xs
      | PFrozenset ys \<Rightarrow> length xs = length ys \<and> list_all (\<lambda>x. list_ex (py_eq x) ys) xs
      | _ \<Rightarrow> False)"
| "py_eq (PDict xs) y =
     (case y of
        PDict ys \<Rightarrow> length xs = length ys \<and>
          list_all (\<lambda>kv. case find (\<lambda>kv'. py_eq (fst kv) (fst kv')) ys of
                            None \<Rightarrow> False
                          | Some kv' \<Rightarrow> py_eq (snd kv) (snd kv')) xs
      | _ \<Rightarrow> False)"
| "py_eq (PType t) y = (y = PType t)"
| "py_eq (POr i _) y = (case y of POr j _ \<Rightarrow> i = j | _ \<Rightarrow> False)"
| "py_eq (PAnd i _) y = (case y of PAnd j _ \<Rightarrow> i = j | _ \<Rightarrow> False)"
| "py_eq (PListOf i _) y = (case y of PListOf j _ \<Rightarrow> i = j | _ \<Rightarrow> False)"
| "py_eq (POptional i _) y = (case y of POptional j _ \<Rightarrow> i = j | _ \<Rightarrow> False)"
| "py_eq (PFunc i _ _) y = (case y of PFunc j _ _ \<Rightarrow> i = j | _ \<Rightarrow> False)"

subsection \<open>\<open>hash(x)\<close> and \<open>not x\<close>\<close>

text \<open>
  Lists, sets and dictionaries are unhashable; a tuple is hashable when its elements are;
  instances and callables hash by identity.
\<close>

definition quoted :: "string \<Rightarrow> string" where
  "quoted s = [CHR 0x27] @ s @ [CHR 0x27]"

definition dquoted :: "string \<Rightarrow> string" where
  "dquoted s = [CHR 0x22] @ s @ [CHR 0x22]"

fun py_hash :: "obj \<Rightarrow> exn + unit" where
  "py_hash (PList _) = Inl (TypeError (''unhashable type: '' @ quoted ''list''))"
| "py_hash (PSet _) = Inl (TypeError (''unhashable type: '' @ quoted ''set''))"
| "py_hash (PDict _) = Inl (TypeError (''unhashable type: '' @ quoted ''dict''))"
| "py_hash (PTuple xs) =
     (case filter isl (map py_hash xs) of e # _ \<Rightarrow> e | [] \<Rightarrow> Inr ())"
| "py_hash _ = Inr ()"

fun truthy :: "obj \<Rightarrow> bool" where
  "truthy PNone = False"
| "truthy (PBool b) = b"
| "truthy (PInt i) = (i \<noteq> 0)"
| "truthy (PFloat r) = (r \<noteq> 0)"
| "truthy (PStr s) = (s \<noteq> [])"
| "truthy (PList xs) = (xs \<noteq> [])"
| "truthy (PTuple xs) = (xs \<noteq> [])"
| "truthy (PSet xs) = (xs \<noteq> [])"
| "truthy (PFrozenset xs) = (xs \<noteq> [])"
| "truthy (PDict kvs) = (kvs \<noteq> [])"
| "truthy _ = True"

subsection \<open>\<open>float(n)\<close> for an \<open>int\<close>\<close>

text \<open>
  The conversion rounds the integer to 53 significant bits, ties to even, and raises
  \<open>OverflowError\<close> when the rounded value does not fit a double (it reaches \<open>2 ^ 1024\<close>).
\<close>

fun bit_length :: "nat \<Rightarrow> nat" where
  "bit_length n = (if n = 0 then 0 else Suc (bit_length (n div 2)))"

declare bit_length.simps [simp del]

definition round53 :: "nat \<Rightarrow> nat" where
  "round53 a =
     (let k = bit_length a - 53;
          q = a div 2 ^ k;
          r = a mod 2 ^ k;
          q' = (if 2 * r > 2 ^ k \<or> (2 * r = 2 ^ k \<and> odd q) then q + 1 else q)
      in q' * 2 ^ k)"

definition py_float :: "int \<Rightarrow> exn + rat" where
  "py_float n =
     (let v = round53 (nat \<bar>n\<bar>)
      in if v \<ge> 2 ^ 1024 then Inl (OverflowError ''int too large to convert to float'')
         else Inr (of_int (sgn n * int v)))"

subsection \<open>Formatting with \<open>%d\<close>\<close>

fun show_nat :: "nat \<Rightarrow> string" where
  "show_nat n =
     (if n < 10 then [char_of (48 + n)]
      else show_nat (n div 10) @ [char_of (48 + n mod 10)])"

declare show_nat.simps [simp del]

definition show_int :: "int \<Rightarrow> string" where
  "show_int i = (if i < 0 then ''-'' @ show_nat (nat (- i)) else show_nat (nat i))"

definition index_path :: "string \<Rightarrow> nat \<Rightarrow> string" where
  \<comment> \<open>\<open>path+'[%d]'%i\<close>\<close>
  "index_path path i = path @ ''['' @ show_nat i @ '']''"

subsection \<open>Sequences, iteration and dictionaries\<close>

fun isList :: "obj \<Rightarrow> bool" where
  "isList (PList _) = True"
| "isList (PTuple _) = True"
| "isList (PSet _) = True"
| "isList (PFrozenset _) = True"
| "isList _ = False"

text \<open>
  \<open>isDict\<close> asks for the attributes \<open>items\<close> and \<open>keys\<close>: a dictionary has them, and so has the
  type object \<open>dict\<close> itself.
\<close>

fun isDict :: "obj \<Rightarrow> bool" where
  "isDict (PDict _) = True"
| "isDict (PType TDict) = True"
| "isDict _ = False"

text \<open>
  \<open>iterate x\<close> is what \<open>enumerate(x)\<close> and \<open>zip(x, ...)\<close> run over: the elements of a
  sequence, the characters of a string (each a string of length one), the keys of a
  dictionary. Another object is not iterable: \<open>TypeError\<close>.
\<close>

fun iterate :: "obj \<Rightarrow> exn + obj list" where
  "iterate (PList xs) = Inr xs"
| "iterate (PTuple xs) = Inr xs"
| "iterate (PSet xs) = Inr xs"
| "iterate (PFrozenset xs) = Inr xs"
| "iterate (PStr s) = Inr (map (\<lambda>c. PStr [c]) s)"
| "iterate (PDict kvs) = Inr (map fst kvs)"
| "iterate x = Inl (TypeError (quoted (type_name (type_of x)) @ '' object is not iterable''))"

fun elems :: "obj \<Rightarrow> obj list" where
  "elems (PList xs) = xs"
| "elems (PTuple xs) = xs"
| "elems (PSet xs) = xs"
| "elems (PFrozenset xs) = xs"
| "elems _ = []"

definition dict_lookup :: "(obj \<times> obj) list \<Rightarrow> obj \<Rightarrow> obj option" where
  \<comment> \<open>\<open>d[key]\<close> when \<open>key in d\<close>: the value stored under a key equal to \<open>key\<close>\<close>
  "dict_lookup d key = map_option snd (find (\<lambda>kv. py_eq (fst kv) key) d)"

fun dict_set :: "(obj \<times> obj) list \<Rightarrow> obj \<Rightarrow> obj \<Rightarrow> (obj \<times> obj) list" where
  \<comment> \<open>\<open>d[key] = v\<close>: an equal key that is already there keeps its place and its key object\<close>
  "dict_set [] key v = [(key, v)]"
| "dict_set ((k, w) # d) key v =
     (if py_eq k key then (k, v) # d else (k, w) # dict_set d key v)"

subsection \<open>\<open>set(report)\<close>\<close>

text \<open>
  Building the set hashes every tuple, so every value in a triple must be hashable;
  equal tuples collapse into the one that came first. An exception object caught by \<open>sub\<close>
  is a fresh object, equal to no other.
\<close>

fun diag_hash :: "diag \<Rightarrow> exn + unit" where
  "diag_hash (Diag2 _ _) = Inr ()"
| "diag_hash (Diag3 _ _ v) = py_hash v"
| "diag_hash (DiagF _ _) = Inr ()"

fun diag_eq :: "diag \<Rightarrow> diag \<Rightarrow> bool" where
  "diag_eq (Diag2 p m) (Diag2 p' m') = (p = p' \<and> m = m')"
| "diag_eq (Diag3 p m v) (Diag3 p' m' v') = (p = p' \<and> m = m' \<and> py_eq v v')"
| "diag_eq _ _ = False"

fun py_set_add :: "diag list \<Rightarrow> diag \<Rightarrow> diag list" where
  "py_set_add s d = (if list_ex (\<lambda>d'. diag_eq d' d) s then s else s @ [d])"

definition py_set :: "diag list \<Rightarrow> exn + diag list" where
  "py_set report =
     (case find (\<lambda>d. isl (diag_hash d)) report of
        Some d \<Rightarrow> Inl (projl (diag_hash d))
      | None \<Rightarrow> Inr (foldl py_set_add [] report))"

section \<open>The validator\<close>

subsection \<open>Loops\<close>

text \<open>
  \<open>for_break stop body c cs\<close> is a \<open>for\<close> loop over the non-empty sequence \<open>c # cs\<close> whose body
  ends with \<open>if stop: break\<close>: it returns what the last iteration that ran has computed.
\<close>

fun for_break :: "('r \<Rightarrow> bool) \<Rightarrow> ('c \<Rightarrow> 'r) \<Rightarrow> 'c \<Rightarrow> 'c list \<Rightarrow> 'r" where
  "for_break stop body c [] = body c"
| "for_break stop body c (c' # cs) =
     (let r = body c in if stop r then r else for_break stop body c' cs)"

text \<open>
  \<open>for_each body xs s\<close> is a \<open>for\<close> loop over \<open>xs\<close> whose body updates the state \<open>s\<close> and may
  raise: the loop stops at the first exception, with the state reached so far.
\<close>

fun for_each :: "('a \<Rightarrow> 's \<Rightarrow> exn option \<times> 's) \<Rightarrow> 'a list \<Rightarrow> 's \<Rightarrow> exn option \<times> 's" where
  "for_each body [] s = (None, s)"
| "for_each body (x # xs) s =
     (case body x s of
        (Some e, s') \<Rightarrow> (Some e, s')
      | (None, s') \<Rightarrow> for_each body xs s')"

lemma for_break_cong [fundef_cong]:
  assumes "c = c'" "cs = cs'" "\<And>x. x \<in> set (c' # cs') \<Longrightarrow> body x = body' x"
  shows "for_break stop body c cs = for_break stop body' c' cs'"
  using assms(3) unfolding assms(1,2)
  by (induction cs' arbitrary: c') (simp_all add: Let_def)

lemma for_each_cong [fundef_cong]:
  assumes "xs = xs'" "s = s'" "\<And>x t. x \<in> set xs' \<Longrightarrow> body x t = body' x t"
  shows "for_each body xs s = for_each body' xs' s'"
  using assms(3) unfolding assms(1,2)
  by (induction xs' arbitrary: s') (simp_all split: prod.splits option.splits)

subsection \<open>\<open>sub\<close>\<close>

text \<open>
  The state of the loop over the items of a dictionary scheme: the keys seen, the
  dictionary being built and the diagnostics appended so far.
\<close>

record dict_loop =
  l_keys :: "obj list"
  l_obj2 :: "(obj \<times> obj) list"
  l_report :: "diag list"

text \<open>
  \<open>attempt obj ex path body\<close> is the \<open>try\<close> block of \<open>sub\<close>: \<open>obj == exp\<close> returns \<open>obj\<close> at once;
  otherwise \<open>body\<close> has either computed the new \<open>obj\<close> or raised, and in both cases has
  appended diagnostics; an exception adds \<open>(path, 'failure', e)\<close> and leaves \<open>obj\<close> as it was.
\<close>

definition attempt ::
  "obj \<Rightarrow> obj \<Rightarrow> string \<Rightarrow> (exn + obj) \<times> diag list \<Rightarrow> obj \<times> diag list" where
  "attempt obj ex path body =
     (if py_eq obj ex then (obj, [])
      else case body of
             (Inr obj', report) \<Rightarrow> (obj', report)
           | (Inl e, report) \<Rightarrow> (obj, report @ [DiagF path e]))"

text \<open>
  \<open>sub h ignore_extra_keys obj ex path\<close> returns the new \<open>obj\<close> and the diagnostics that the
  call appends to its \<open>report\<close> (the list is only ever appended to, and read only when it
  is the fresh \<open>report2\<close> of an \<open>Or\<close> or \<open>And\<close>).
\<close>

function (sequential) sub :: "host \<Rightarrow> bool \<Rightarrow> obj \<Rightarrow> obj \<Rightarrow> string \<Rightarrow> obj \<times> diag list" where
  "sub h ign obj (POr i choice) path = attempt obj (POr i choice) path
     (case choice of
        [] \<Rightarrow> (Inr obj, [Diag2 path ''empty choice''])
      | c # cs \<Rightarrow>
          (case for_break (\<lambda>r. snd r = []) (\<lambda>c. sub h ign obj c path) c cs of
             (obj2, report2) \<Rightarrow>
               if report2 \<noteq> [] then (Inr obj, report2) else (Inr obj2, [])))"
| "sub h ign obj (PAnd i choice) path = attempt obj (PAnd i choice) path
     (case choice of
        [] \<Rightarrow> (Inr obj, [Diag2 path ''empty choice''])
      | c # cs \<Rightarrow>
          (case for_break (\<lambda>r. snd r \<noteq> []) (\<lambda>c. sub h ign obj c path) c cs of
             (obj2, report2) \<Rightarrow>
               if report2 \<noteq> [] then (Inr obj, report2) else (Inr obj2, [])))"
| "sub h ign obj (PList ex) path = attempt obj (PList ex) path
     (if \<not> isList obj then (Inr obj, [Diag3 path ''array expected'' obj])
      else if length ex \<noteq> length (elems obj) then
        (Inr obj, [Diag3 path (''length is '' @ show_nat (length (elems obj)) @
                               '' but should be '' @ show_nat (length ex)) obj])
      else
        (let rs = map (\<lambda>(i, x, e). sub h ign x e (index_path path i))
                      (enumerate 0 (zip (elems obj) ex))
         in (Inr (PList (map fst rs)), concat (map snd rs))))"
| "sub h ign obj (PTuple ex) path = attempt obj (PTuple ex) path
     (if \<not> isList obj then (Inr obj, [Diag3 path ''array expected'' obj])
      else if length ex \<noteq> length (elems obj) then
        (Inr obj, [Diag3 path (''length is '' @ show_nat (length (elems obj)) @
                               '' but should be '' @ show_nat (length ex)) obj])
      else
        (let rs = map (\<lambda>(i, x, e). sub h ign x e (index_path path i))
                      (enumerate 0 (zip (elems obj) ex))
         in (Inr (PList (map fst rs)), concat (map snd rs))))"
| "sub h ign obj (PSet ex) path = attempt obj (PSet ex) path
     (if \<not> isList obj then (Inr obj, [Diag3 path ''array expected'' obj])
      else if length ex \<noteq> length (elems obj) then
        (Inr obj, [Diag3 path (''length is '' @ show_nat (length (elems obj)) @
                               '' but should be '' @ show_nat (length ex)) obj])
      else
        (let rs = map (\<lambda>(i, x, e). sub h ign x e (index_path path i))
                      (enumerate 0 (zip (elems obj) ex))
         in (Inr (PList (map fst rs)), concat (map snd rs))))"
| "sub h ign obj (PFrozenset ex) path = attempt obj (PFrozenset ex) path
     (if \<not> isList obj then (Inr obj, [Diag3 path ''array expected'' obj])
      else if length ex \<noteq> length (elems obj) then
        (Inr obj, [Diag3 path (''length is '' @ show_nat (length (elems obj)) @
                               '' but should be '' @ show_nat (length ex)) obj])
      else
        (let rs = map (\<lambda>(i, x, e). sub h ign x e (index_path path i))
                      (enumerate 0 (zip (elems obj) ex))
         in (Inr (PList (map fst rs)), concat (map snd rs))))"
| "sub h ign obj (PListOf l check) path = attempt obj (PListOf l check) path
     (case iterate obj of
        Inl e \<Rightarrow> (Inl e, [])
      | Inr xs \<Rightarrow>
          (let rs = map (\<lambda>(i, x). sub h ign x check (index_path path i)) (enumerate 0 xs)
           in (Inr (PList (map fst rs)), concat (map snd rs))))"
| "sub h ign obj (PDict ex) path = attempt obj (PDict ex) path
     (if \<not> isDict obj then (Inr obj, [Diag3 path ''dictionary expected'' obj])
      else case obj of
        PDict given \<Rightarrow>
          (case for_each
                  (\<lambda>(expk, expv) s.
                     let (key, mandatory) =
                           (case expk of POptional _ k \<Rightarrow> (k, False) | _ \<Rightarrow> (expk, True));
                         s = s\<lparr>l_keys := l_keys s @ [key]\<rparr>
                     in case py_hash key of
                          Inl e \<Rightarrow> (Some e, s)
                        | Inr _ \<Rightarrow>
                            (case dict_lookup given key of
                               Some v \<Rightarrow>
                                 (case key of
                                    PStr k \<Rightarrow>
                                      (case sub h ign v expv (path @ ''.'' @ k) of
                                         (v', report) \<Rightarrow>
                                           (None, s\<lparr>l_obj2 := dict_set (l_obj2 s) key v',
                                                    l_report := l_report s @ report\<rparr>))
                                  | _ \<Rightarrow>
                                      (Some (TypeError
                                         (''can only concatenate str (not '' @
                                          dquoted (type_name (type_of key)) @ '') to str'')), s))
                             | None \<Rightarrow>
                                 if mandatory
                                 then (None, s\<lparr>l_report := l_report s @
                                                  [Diag3 path ''not found'' key]\<rparr>)
                                 else (None, s)))
                  ex \<lparr>l_keys = [], l_obj2 = [], l_report = []\<rparr> of
             (Some e, s) \<Rightarrow> (Inl e, l_report s)
           | (None, s) \<Rightarrow>
               (let extra = filter (\<lambda>(k, v). \<not> list_ex (\<lambda>k'. py_eq k' k) (l_keys s)) given
                in if extra \<noteq> [] then
                     if ign
                     then (Inr (PDict (foldl (\<lambda>d (k, v). dict_set d k v) (l_obj2 s) extra)),
                           l_report s)
                     else (Inr (PDict (l_obj2 s)),
                           l_report s @ map (\<lambda>(k, v). Diag3 path ''extra key'' k) extra)
                   else (Inr (PDict (l_obj2 s)), l_report s)))
      | _ \<Rightarrow>
          (case ex of
             [] \<Rightarrow> (Inl (TypeError ''unbound method dict.keys() needs an argument''), [])
           | _ \<Rightarrow> (Inl (TypeError (''argument of type '' @ quoted ''type'' @
                                    '' is not iterable'')), [])))"
| "sub h ign obj (PFunc f nb name) path = attempt obj (PFunc f nb name) path
     (if nb \<noteq> 1 \<and> nb \<noteq> 2 then
        (Inr obj, [Diag2 path (name @ '' should take 1 or 2 parameters'')])
      else
        (case call h f (if nb = 1 then [obj] else [PStr path, obj]) of
           Inl e \<Rightarrow> (Inr obj, [Diag2 path (name @ '' call raised '' @ exn_str e)])
         | Inr (ForceValue v) \<Rightarrow> (Inr v, [])
         | Inr (Error message) \<Rightarrow> (Inr obj, [Diag3 path message obj])
         | Inr (Other res) \<Rightarrow>
             if \<not> truthy res then (Inr obj, [Diag3 path (''invalidated by '' @ name) obj])
             else (Inr obj, [])))"
| "sub h ign obj (PType ex) path = attempt obj (PType ex) path
     (if isDict (PType ex) then
        (if \<not> isDict obj then (Inr obj, [Diag3 path ''dictionary expected'' obj])
         else (Inl (TypeError ''unbound method dict.items() needs an argument''), []))
      else if ex = TFloat \<and> type_of obj = TInt then
        (case obj of
           PInt n \<Rightarrow> (case py_float n of Inl e \<Rightarrow> (Inl e, []) | Inr r \<Rightarrow> (Inr (PFloat r), []))
         | _ \<Rightarrow> (Inr obj, []))
      else if ex = TStr then
        (if type_of obj \<noteq> TStr then (Inr obj, [Diag3 path ''not a str'' obj])
         else (Inr obj, []))
      else if ex \<noteq> type_of obj then
        (Inr obj, [Diag3 path (''not a '' @ type_name ex) obj])
      else (Inr obj, []))"
| "sub h ign obj ex path = attempt obj ex path
     (if \<not> py_eq ex obj then (Inr obj, [Diag3 path (''!= '' @ str_of h ex) obj])
      else (Inr obj, []))"
  by pat_completeness auto

lemma enumerate_snd_mem: "(i, x) \<in> set (enumerate n xs) \<Longrightarrow> x \<in> set xs"
  by (auto simp: in_set_enumerate_eq)

lemma size_elem_less: "x \<in> set xs \<Longrightarrow> size x < Suc (n + size_list size xs)"
  by (induction xs) auto

lemma size_value_less:
  "(k, v) \<in> set kvs \<Longrightarrow> size v < Suc (size_list (size_prod size size) kvs)"
  by (induction kvs) auto

termination sub
proof (relation "measure (\<lambda>(h, ign, obj, ex, path). size ex)", goal_cases)
  case 1
  show ?case by simp
next
  case 2
  then show ?case by (auto dest: size_elem_less [where n = 0])
next
  case 3
  then show ?case by (auto dest: size_elem_less [where n = 0])
next
  case (4 h ign obj ex path ix i xe x e)
  then have "e \<in> set ex"
    by (auto dest!: enumerate_snd_mem set_zip_rightD)
  then show ?case using size_elem_less [of e ex 0] by simp
next
  case (5 h ign obj ex path ix i xe x e)
  then have "e \<in> set ex"
    by (auto dest!: enumerate_snd_mem set_zip_rightD)
  then show ?case using size_elem_less [of e ex 0] by simp
next
  case (6 h ign obj ex path ix i xe x e)
  then have "e \<in> set ex"
    by (auto dest!: enumerate_snd_mem set_zip_rightD)
  then show ?case using size_elem_less [of e ex 0] by simp
next
  case (7 h ign obj ex path ix i xe x e)
  then have "e \<in> set ex"
    by (auto dest!: enumerate_snd_mem set_zip_rightD)
  then show ?case using size_elem_less [of e ex 0] by simp
next
  case 8
  then show ?case by simp
next
  case 9
  then show ?case by (auto simp: size_value_less)
qed

subsection \<open>\<open>validate\<close>\<close>

text \<open>
  \<open>validate\<close> returns the pair of the output and the set of the diagnostics (here the list
  of its elements, in the order of their first occurrence; Python gives no order), or
  raises what \<open>set(report)\<close> raises.
\<close>

definition validate :: "host \<Rightarrow> obj \<Rightarrow> obj \<Rightarrow> bool \<Rightarrow> exn + obj \<times> diag list" where
  "validate h given expected ignore_extra_keys =
     (case sub h ignore_extra_keys given expected '''' of
        (output, report) \<Rightarrow>
          (case py_set report of
             Inl e \<Rightarrow> Inl e
           | Inr errors \<Rightarrow> Inr (output, errors)))"

section \<open>A host for the examples\<close>

text \<open>
  The host of the worked examples. Callable \<open>0\<close> is \<open>lambda x : ForceValue( [x] )\<close>, callable
  \<open>1\<close> is \<open>lambda x : True\<close> (the \<open>check_presence\<close> of the module's samples), and any other
  callable is \<open>def f ( *args ) : raise Exception( 'unknown callable' )\<close>. A lambda of one
  parameter that receives another number of arguments raises \<open>TypeError\<close>. The host gives
  the text of \<open>None\<close>, of a \<open>bool\<close>, of an \<open>int\<close> and of a \<open>str\<close> as Python does; the text of a
  \<open>float\<close> (its shortest decimal that reads back as the same double) and of an instance
  (which shows its address) are not modelled and are given as \<open><float>\<close> and \<open><object>\<close>.
\<close>

definition sample_host :: host where
  "sample_host =
     \<lparr>call = (\<lambda>f args.
         if f = 0 then
           (case args of
              [x] \<Rightarrow> Inr (ForceValue (PList [x]))
            | _ \<Rightarrow> Inl (TypeError ''<lambda>() takes 1 positional argument''))
         else if f = 1 then
           (case args of
              [x] \<Rightarrow> Inr (Other (PBool True))
            | _ \<Rightarrow> Inl (TypeError ''<lambda>() takes 1 positional argument''))
         else Inl (Raised ''unknown callable'')),
       str_of = (\<lambda>x. case x of
                        PNone \<Rightarrow> ''None''
                      | PBool b \<Rightarrow> (if b then ''True'' else ''False'')
                      | PInt i \<Rightarrow> show_int i
                      | PStr s \<Rightarrow> s
                      | PFloat r \<Rightarrow> ''<float>''
                      | _ \<Rightarrow> ''<object>'')\<rparr>"

section \<open>Properties\<close>

subsection \<open>Auxiliary facts\<close>

lemma sub_equal: "py_eq obj ex \<Longrightarrow> sub h ign obj ex path = (obj, [])"
  by (cases ex) (simp_all add: attempt_def)

lemma bit_length_le: "n < 2 ^ m \<Longrightarrow> bit_length n \<le> m"
proof (induction m arbitrary: n)
  case 0
  then have "n = 0" by simp
  then show ?case by (simp add: bit_length.simps)
next
  case (Suc m)
  show ?case
  proof (cases "n = 0")
    case True
    then show ?thesis by (simp add: bit_length.simps)
  next
    case False
    from Suc.prems have "n div 2 < 2 ^ m" by simp
    then have "bit_length (n div 2) \<le> m" by (rule Suc.IH)
    with False show ?thesis by (subst bit_length.simps) simp
  qed
qed

lemma bit_length_pow: "bit_length (2 ^ m) = Suc m"
proof (induction m)
  case 0
  show ?case by (simp add: bit_length.simps)
next
  case (Suc m)
  then show ?case by (subst bit_length.simps) simp
qed

lemma bit_length_gt: "2 ^ m \<le> n \<Longrightarrow> m < bit_length n"
proof (induction m arbitrary: n)
  case 0
  then have "n \<noteq> 0" by auto
  then show ?case by (subst bit_length.simps) simp
next
  case (Suc m)
  have "(0::nat) < 2 ^ Suc m" by simp
  with Suc.prems have n0: "n \<noteq> 0" by linarith
  from Suc.prems have "2 ^ m \<le> n div 2" by simp
  then have "m < bit_length (n div 2)" by (rule Suc.IH)
  with n0 show ?case by (subst bit_length.simps) simp
qed

lemma bit_length_upper: "n < 2 ^ bit_length n"
proof (rule ccontr)
  assume "\<not> n < 2 ^ bit_length n"
  then have "2 ^ bit_length n \<le> n" by simp
  then have "bit_length n < bit_length n" by (rule bit_length_gt)
  then show False by simp
qed

lemma bit_length_lower:
  assumes "bit_length n = Suc l"
  shows "2 ^ l \<le> n"
proof (rule ccontr)
  assume "\<not> 2 ^ l \<le> n"
  then have "n < 2 ^ l" by simp
  then have "bit_length n \<le> l" by (rule bit_length_le)
  with assms show False by simp
qed

text \<open>The parts of the rounding.\<close>

lemma round53_parts:
  fixes a :: nat
  defines "k \<equiv> bit_length a - 53"
  defines "q \<equiv> a div 2 ^ k"
  defines "r \<equiv> a mod 2 ^ k"
  shows "round53 a = (if 2 * r > 2 ^ k \<or> (2 * r = 2 ^ k \<and> odd q) then q + 1 else q) * 2 ^ k"
    and "a = q * 2 ^ k + r" and "r < 2 ^ k" and "q < 2 ^ 53"
proof -
  show "round53 a = (if 2 * r > 2 ^ k \<or> (2 * r = 2 ^ k \<and> odd q) then q + 1 else q) * 2 ^ k"
    by (simp add: round53_def Let_def k_def q_def r_def)
  show "a = q * 2 ^ k + r" unfolding q_def r_def by (rule div_mult_mod_eq [symmetric])
  show "r < 2 ^ k" by (simp add: r_def)
  have "bit_length a \<le> k + 53" by (simp add: k_def)
  then have "(2::nat) ^ bit_length a \<le> 2 ^ (k + 53)" by (rule power_increasing) simp
  with bit_length_upper [of a] have "a < 2 ^ (k + 53)" by (rule less_le_trans)
  then have "a < 2 ^ 53 * 2 ^ k" by (simp add: power_add mult.commute)
  then show "q < 2 ^ 53" unfolding q_def by (rule less_mult_imp_div_less)
qed


lemma round53_small:
  assumes "bit_length a \<le> 1023"
  shows "round53 a < 2 ^ 1024"
proof -
  define k where "k = bit_length a - 53"
  define q where "q = a div 2 ^ k"
  define r where "r = a mod 2 ^ k"
  note p = round53_parts [of a, folded k_def q_def r_def]
  have "(if 2 * r > 2 ^ k \<or> (2 * r = 2 ^ k \<and> odd q) then q + 1 else q) \<le> 2 ^ 53"
    using p(4) by simp
  then have "round53 a \<le> 2 ^ 53 * 2 ^ k"
    unfolding p(1) by (rule mult_le_mono1)
  also have "\<dots> = 2 ^ (53 + k)" by (simp add: power_add)
  also have "\<dots> \<le> 2 ^ 1023"
    by (rule power_increasing) (use assms in \<open>simp_all add: k_def\<close>)
  also have "\<dots> < (2::nat) ^ 1024" by simp
  finally show ?thesis .
qed

lemma round53_big:
  assumes "1025 \<le> bit_length a"
  shows "2 ^ 1024 \<le> round53 a"
proof -
  define k where "k = bit_length a - 53"
  define q where "q = a div 2 ^ k"
  define r where "r = a mod 2 ^ k"
  note p = round53_parts [of a, folded k_def q_def r_def]
  obtain l where l: "bit_length a = Suc l" using assms by (cases "bit_length a") simp_all
  then have la: "2 ^ l \<le> a" by (rule bit_length_lower)
  have kl: "l = 52 + k" using assms l by (simp add: k_def)
  have "(2::nat) ^ 52 = (2 ^ 52 * 2 ^ k) div 2 ^ k" by simp
  also have "\<dots> = 2 ^ l div 2 ^ k" by (simp add: kl power_add)
  also have "\<dots> \<le> q" unfolding q_def using la by (rule div_le_mono)
  finally have q52: "2 ^ 52 \<le> q" .
  have "(2::nat) ^ 1024 \<le> 2 ^ l"
    by (rule power_increasing) (use assms l in simp_all)
  also have "\<dots> = 2 ^ 52 * 2 ^ k" by (simp add: kl power_add)
  also have "\<dots> \<le> q * 2 ^ k" using q52 by (rule mult_le_mono1)
  also have "\<dots> \<le> round53 a" unfolding p(1) by (rule mult_le_mono1) simp
  finally show ?thesis .
qed

lemma round53_mid:
  assumes "bit_length a = 1024"
  shows "a + 2 ^ 970 < 2 ^ 1024 \<longleftrightarrow> round53 a < 2 ^ 1024"
proof -
  define q where "q = a div 2 ^ 971"
  define r where "r = a mod 2 ^ 971"
  have k: "bit_length a - 53 = 971" using assms by simp
  note p = round53_parts [of a, unfolded k, folded q_def r_def]
  have a: "a = q * 2 ^ 971 + r" and r: "r < 2 ^ 971" and q: "q < 2 ^ 53"
    using p by simp_all
  show ?thesis
  proof (cases "q = 2 ^ 53 - 1")
    case True
    then have oq: "odd q" by simp
    have up: "(2 * r > 2 ^ 971 \<or> (2 * r = 2 ^ 971 \<and> odd q)) \<longleftrightarrow> 2 ^ 970 \<le> r"
      using oq by auto
    show ?thesis
    proof (cases "2 ^ 970 \<le> r")
      case yes: True
      then have "round53 a = (q + 1) * 2 ^ 971" unfolding p(1) using up by simp
      then have "round53 a = 2 ^ 1024" using True by simp
      moreover have "\<not> a + 2 ^ 970 < 2 ^ 1024" using yes True a by simp
      ultimately show ?thesis by simp
    next
      case no: False
      then have "round53 a = q * 2 ^ 971" unfolding p(1) using up by simp
      then have "round53 a < 2 ^ 1024" using True by simp
      moreover have "a + 2 ^ 970 < 2 ^ 1024" using no True a by simp
      ultimately show ?thesis by simp
    qed
  next
    case False
    with q have q2: "q + 2 \<le> 2 ^ 53" by simp
    have "round53 a \<le> (q + 1) * 2 ^ 971" unfolding p(1) by (rule mult_le_mono1) simp
    also have "\<dots> < 2 ^ 1024" using q2 by simp
    finally have "round53 a < 2 ^ 1024" .
    moreover have "a + 2 ^ 970 < 2 ^ 1024" using q2 a r by simp
    ultimately show ?thesis by simp
  qed
qed

lemma round53_fits:
  "a + 2 ^ 970 < 2 ^ 1024 \<longleftrightarrow> round53 a < 2 ^ 1024"
proof -
  consider "bit_length a \<le> 1023" | "bit_length a = 1024" | "1025 \<le> bit_length a"
    by linarith
  then show ?thesis
  proof cases
    case 1
    then have "(2::nat) ^ bit_length a \<le> 2 ^ 1023" by (intro power_increasing) simp_all
    with bit_length_upper [of a] have "a < 2 ^ 1023" by (rule less_le_trans)
    then have "a + 2 ^ 970 < 2 ^ 1024" by simp
    with round53_small [OF 1] show ?thesis by simp
  next
    case 2
    then show ?thesis by (rule round53_mid)
  next
    case 3
    then have "1024 < bit_length a" by simp
    then obtain l where l: "bit_length a = Suc l" and "1024 \<le> l"
      by (cases "bit_length a") simp_all
    then have "(2::nat) ^ 1024 \<le> 2 ^ l" by (intro power_increasing) simp_all
    also have "\<dots> \<le> a" using l by (rule bit_length_lower)
    finally have "\<not> a + 2 ^ 970 < 2 ^ 1024" by simp
    with round53_big [OF 3] show ?thesis by simp
  qed
qed


lemma round53_exact_iff:
  "round53 a = a \<longleftrightarrow> (\<exists>m j. a = m * 2 ^ j \<and> m < 2 ^ 53)"
proof -
  define k where "k = bit_length a - 53"
  define q where "q = a div 2 ^ k"
  define r where "r = a mod 2 ^ k"
  note p = round53_parts [of a, folded k_def q_def r_def]
  have r0: "round53 a = a \<longleftrightarrow> r = 0"
  proof (cases "2 * r > 2 ^ k \<or> (2 * r = 2 ^ k \<and> odd q)")
    case True
    then have "round53 a = q * 2 ^ k + 2 ^ k" unfolding p(1) by simp
    moreover have "(0::nat) < 2 ^ k" by simp
    with True have "r \<noteq> 0" by (cases "r = 0") auto
    ultimately show ?thesis using p(2) p(3) by simp
  next
    case False
    then have "round53 a = q * 2 ^ k" unfolding p(1) by simp
    then show ?thesis using p(2) by auto
  qed
  have "r = 0" if "a = m * 2 ^ j" and "m < 2 ^ 53" for m j
  proof (cases "k = 0")
    case True
    then show ?thesis by (simp add: r_def)
  next
    case False
    then obtain l where l: "bit_length a = Suc l" and lk: "l = 52 + k"
      by (cases "bit_length a") (simp_all add: k_def)
    from l have la: "2 ^ l \<le> a" by (rule bit_length_lower)
    have "k \<le> j"
    proof (rule ccontr)
      assume "\<not> k \<le> j"
      then have "53 + j \<le> l" using lk by simp
      have "a < 2 ^ 53 * 2 ^ j" unfolding that(1) using that(2) by simp
      also have "\<dots> = 2 ^ (53 + j)" by (simp add: power_add)
      also have "\<dots> \<le> 2 ^ l" using \<open>53 + j \<le> l\<close> by (intro power_increasing) simp_all
      finally show False using la by simp
    qed
    then have "(2::nat) ^ k dvd 2 ^ j" by (rule le_imp_power_dvd)
    then have "2 ^ k dvd a" unfolding that(1) by (rule dvd_mult)
    then show ?thesis by (simp add: r_def)
  qed
  moreover have "\<exists>m j. a = m * 2 ^ j \<and> m < 2 ^ 53" if "r = 0"
    using p(2) p(4) that by auto
  ultimately show ?thesis using r0 by blast
qed

lemma round53_near:
  "2 * \<bar>int (round53 a) - int a\<bar> \<le> 2 ^ (bit_length a - 53)"
proof -
  define k where "k = bit_length a - 53"
  define q where "q = a div 2 ^ k"
  define r where "r = a mod 2 ^ k"
  note p = round53_parts [of a, folded k_def q_def r_def]
  have ia: "int a = int q * 2 ^ k + int r"
    using arg_cong [OF p(2), of int] by simp
  show ?thesis
  proof (cases "2 * r > 2 ^ k \<or> (2 * r = 2 ^ k \<and> odd q)")
    case True
    then have v: "round53 a = q * 2 ^ k + 2 ^ k" unfolding p(1) by simp
    have "int (round53 a) - int a = 2 ^ k - int r"
      unfolding v ia by simp
    moreover from True have "2 ^ k \<le> 2 * r" by auto
    then have "2 ^ k \<le> 2 * int r" using of_nat_mono [of "2 ^ k" "2 * r", where 'a = int] by simp
    moreover have "int r < 2 ^ k" using of_nat_less_iff [of r "2 ^ k", where 'a = int] p(3) by simp
    ultimately show ?thesis unfolding k_def [symmetric] by simp
  next
    case False
    then have v: "round53 a = q * 2 ^ k" unfolding p(1) by simp
    have "int (round53 a) - int a = - int r"
      unfolding v ia by simp
    moreover from False have "2 * r \<le> 2 ^ k" by auto
    then have "2 * int r \<le> 2 ^ k" using of_nat_mono [of "2 * r" "2 ^ k", where 'a = int] by simp
    ultimately show ?thesis unfolding k_def [symmetric] by simp
  qed
qed

lemma round53_zero: "round53 0 = 0"
  by (simp add: round53_def Let_def)

lemma sgn_round53:
  "sgn n * int (round53 (nat \<bar>n\<bar>)) = n \<longleftrightarrow> round53 (nat \<bar>n\<bar>) = nat \<bar>n\<bar>"
proof (cases "n = 0")
  case True
  then show ?thesis by (simp add: round53_zero)
next
  case False
  then consider "0 < n" | "n < 0" by linarith
  then show ?thesis
  proof cases
    case 1
    then show ?thesis by (auto simp: nat_eq_iff)
  next
    case 2
    then show ?thesis by (auto simp: nat_eq_iff)
  qed
qed

lemma py_float_in_range:
  assumes "\<bar>n\<bar> < 2 ^ 1024 - 2 ^ 970"
  shows "py_float n = Inr (of_int (sgn n * int (round53 (nat \<bar>n\<bar>))))"
proof -
  have "int (nat \<bar>n\<bar> + 2 ^ 970) < int (2 ^ 1024)" using assms by simp
  then have "nat \<bar>n\<bar> + 2 ^ 970 < 2 ^ 1024" by (metis of_nat_less_iff)
  then have "round53 (nat \<bar>n\<bar>) < 2 ^ 1024"
    using round53_fits [of "nat \<bar>n\<bar>"] by blast
  then show ?thesis by (simp add: py_float_def Let_def not_le [symmetric])
qed

lemma py_float_out_of_range:
  assumes "2 ^ 1024 - 2 ^ 970 \<le> \<bar>n\<bar>"
  shows "py_float n = Inl (OverflowError ''int too large to convert to float'')"
proof -
  have "\<not> int (nat \<bar>n\<bar> + 2 ^ 970) < int (2 ^ 1024)" using assms by simp
  then have "\<not> nat \<bar>n\<bar> + 2 ^ 970 < 2 ^ 1024" by (metis of_nat_less_iff)
  then have "\<not> round53 (nat \<bar>n\<bar>) < 2 ^ 1024"
    using round53_fits [of "nat \<bar>n\<bar>"] by blast
  then show ?thesis by (simp add: py_float_def Let_def not_less)
qed





lemma py_eq_PStr_iff [simp]: "py_eq k (PStr s) \<longleftrightarrow> k = PStr s"
  by (cases k) (auto split: obj.splits)

lemma sub_ListOf_seq:
  assumes "isList obj"
  shows "sub h ign obj (PListOf l check) path =
    (let rs = map (\<lambda>(i, x). sub h ign x check (index_path path i)) (enumerate 0 (elems obj))
     in (PList (map fst rs), concat (map snd rs)))"
  using assms by (cases obj) (simp_all add: attempt_def)

lemma sub_fixed_seq:
  assumes "isList ex" "isList obj" "\<not> py_eq obj ex" "length (elems ex) = length (elems obj)"
  shows "sub h ign obj ex path =
    (let rs = map (\<lambda>(i, x, e). sub h ign x e (index_path path i))
                  (enumerate 0 (zip (elems obj) (elems ex)))
     in (PList (map fst rs), concat (map snd rs)))"
  using assms by (cases ex) (simp_all add: attempt_def)

subsection \<open>The claims\<close>

text \<open>
  C1. The claim: \<open>validate\<close> never raises, every fault being caught by \<open>sub\<close> and turned
  into a diagnostic. The code: \<open>sub\<close> does catch every exception of its own body, but
  \<open>validate\<close> then builds \<open>set(report)\<close> outside any \<open>try\<close>, and a diagnostic whose value is
  unhashable makes that raise. Validating the empty list against \<open>int\<close> reports
  \<open>('', 'not a int', [])\<close>, and \<open>validate\<close> raises \<open>TypeError\<close>.
\<close>

theorem validate_raises_on_unhashable_value:
  "validate h (PList []) (PType TInt) ign =
     Inl (TypeError (''unhashable type: '' @ quoted ''list''))"
  by (simp add: validate_def attempt_def py_set_def)

text \<open>
  C2. The claim: a value that is not a sequence, matched against \<open>ListOf\<close>, gives the
  diagnostic \<open>(path, 'array expected', value)\<close> and is returned unchanged, with no
  element-wise recursion. The code: the \<open>ListOf\<close> branch has no \<open>isList\<close> test (the branch
  for a sequence of descriptors has one) and enumerates the value at once. The integer
  \<open>5\<close> is not iterable, which gives \<open>(path, 'failure', TypeError)\<close>; the string \<open>'ab'\<close> is
  iterated character by character and comes back as the list \<open>['a', 'b']\<close> with no
  diagnostic at all.
\<close>

theorem listof_has_no_sequence_check:
  "validate h (PInt 5) (PListOf l (PType TInt)) ign =
     Inr (PInt 5, [DiagF '''' (TypeError (quoted ''int'' @ '' object is not iterable''))])
   \<and> validate h (PStr ''ab'') (PListOf l (PType TStr)) ign =
     Inr (PList [PStr ''a'', PStr ''b''], [])"
  by (simp add: validate_def attempt_def py_set_def index_path_def enumerate_eq_zip)







text \<open>
  C6, as amended. An integer \<open>n\<close> is validated against \<open>float\<close>.
  When \<open>|n| < 2 ^ 1024 - 2 ^ 970\<close> (the integers that \<open>float(n)\<close> converts), there is no
  diagnostic and the output is a float: the integer rounded to 53 significant bits, at
  most half a unit of the last kept bit away from \<open>n\<close>. It is equal in value to \<open>n\<close> exactly
  when \<open>|n|\<close> is \<open>m * 2 ^ j\<close> with \<open>m < 2 ^ 53\<close>, that is, when \<open>n\<close> is a double.
  When \<open>|n| \<ge> 2 ^ 1024 - 2 ^ 970\<close>, \<open>float(n)\<close> raises \<open>OverflowError\<close>: the output is the integer
  itself, with the diagnostic \<open>(path, 'failure', OverflowError)\<close>.
\<close>

theorem int_widens_to_float:
  "(\<bar>n\<bar> < 2 ^ 1024 - 2 ^ 970 \<longrightarrow>
      validate h (PInt n) (PType TFloat) ign =
        Inr (PFloat (of_int (sgn n * int (round53 (nat \<bar>n\<bar>)))), [])
      \<and> type_of (PFloat (of_int (sgn n * int (round53 (nat \<bar>n\<bar>))))) = TFloat
      \<and> 2 * \<bar>int (round53 (nat \<bar>n\<bar>)) - \<bar>n\<bar>\<bar> \<le> 2 ^ (bit_length (nat \<bar>n\<bar>) - 53)
      \<and> (py_eq (PFloat (of_int (sgn n * int (round53 (nat \<bar>n\<bar>))))) (PInt n)
           \<longleftrightarrow> (\<exists>m j. nat \<bar>n\<bar> = m * 2 ^ j \<and> m < 2 ^ 53)))
   \<and> (2 ^ 1024 - 2 ^ 970 \<le> \<bar>n\<bar> \<longrightarrow>
      validate h (PInt n) (PType TFloat) ign =
        Inr (PInt n, [DiagF '''' (OverflowError ''int too large to convert to float'')]))"
proof (intro conjI impI)
  assume "\<bar>n\<bar> < 2 ^ 1024 - 2 ^ 970"
  then show "validate h (PInt n) (PType TFloat) ign =
        Inr (PFloat (of_int (sgn n * int (round53 (nat \<bar>n\<bar>)))), [])"
    by (simp add: validate_def attempt_def py_set_def py_float_in_range del: of_int_mult)
next
  show "type_of (PFloat (of_int (sgn n * int (round53 (nat \<bar>n\<bar>))))) = TFloat" by simp
next
  show "2 * \<bar>int (round53 (nat \<bar>n\<bar>)) - \<bar>n\<bar>\<bar> \<le> 2 ^ (bit_length (nat \<bar>n\<bar>) - 53)"
    using round53_near [of "nat \<bar>n\<bar>"] by simp
next
  have "py_eq (PFloat (of_int (sgn n * int (round53 (nat \<bar>n\<bar>))))) (PInt n)
        \<longleftrightarrow> sgn n * int (round53 (nat \<bar>n\<bar>)) = n"
    by (simp del: of_int_mult of_int_of_nat_eq) (metis of_int_eq_iff)
  then show "py_eq (PFloat (of_int (sgn n * int (round53 (nat \<bar>n\<bar>))))) (PInt n)
           \<longleftrightarrow> (\<exists>m j. nat \<bar>n\<bar> = m * 2 ^ j \<and> m < 2 ^ 53)"
    by (simp only: sgn_round53 round53_exact_iff)
next
  assume "2 ^ 1024 - 2 ^ 970 \<le> \<bar>n\<bar>"
  then show "validate h (PInt n) (PType TFloat) ign =
        Inr (PInt n, [DiagF '''' (OverflowError ''int too large to convert to float'')])"
    by (simp add: validate_def attempt_def py_set_def py_float_out_of_range)
qed

theorem int_widens_to_float_witness:
  "\<bar>(2::int) ^ 60\<bar> < 2 ^ 1024 - 2 ^ 970
   \<and> validate sample_host (PInt (2 ^ 60)) (PType TFloat) False = Inr (PFloat (2 ^ 60), [])
   \<and> py_eq (PFloat (2 ^ 60)) (PInt (2 ^ 60))
   \<and> 2 ^ 1024 - 2 ^ 970 \<le> \<bar>(2::int) ^ 1024\<bar>
   \<and> validate sample_host (PInt (2 ^ 1024)) (PType TFloat) False =
       Inr (PInt (2 ^ 1024), [DiagF '''' (OverflowError ''int too large to convert to float'')])"
proof -
  have "\<exists>m j. (2::nat) ^ 60 = m * 2 ^ j \<and> m < 2 ^ 53"
    by (rule exI [of _ 1], rule exI [of _ 60]) simp
  then have r: "round53 (2 ^ 60) = 2 ^ 60" by (simp only: round53_exact_iff)
  have a: "nat \<bar>(2::int) ^ 60\<bar> = 2 ^ 60" by simp
  have s: "sgn ((2::int) ^ 60) = 1" by simp
  have small: "\<bar>(2::int) ^ 60\<bar> < 2 ^ 1024 - 2 ^ 970" by simp
  have big: "2 ^ 1024 - 2 ^ 970 \<le> \<bar>(2::int) ^ 1024\<bar>" by simp
  from int_widens_to_float [of "2 ^ 60" sample_host False] small
  have "validate sample_host (PInt (2 ^ 60)) (PType TFloat) False =
          Inr (PFloat (of_int (sgn ((2::int) ^ 60) * int (round53 (nat \<bar>(2::int) ^ 60\<bar>)))), [])"
    by blast
  then have v1: "validate sample_host (PInt (2 ^ 60)) (PType TFloat) False =
          Inr (PFloat (2 ^ 60), [])"
    unfolding a r s by simp
  from int_widens_to_float [of "2 ^ 1024" sample_host False] big
  have v2: "validate sample_host (PInt (2 ^ 1024)) (PType TFloat) False =
       Inr (PInt (2 ^ 1024), [DiagF '''' (OverflowError ''int too large to convert to float'')])"
    by blast
  have e: "py_eq (PFloat (2 ^ 60)) (PInt (2 ^ 60))" by simp
  from small v1 e big v2 show ?thesis by (intro conjI)
qed

text \<open>
  C6, as stated, fails in two ways. The integer \<open>2 ^ 1024\<close> does not fit a double:
  \<open>float(obj)\<close> raises \<open>OverflowError\<close>, and the validation returns the integer itself with
  the diagnostic \<open>('', 'failure', OverflowError)\<close>. The integer \<open>2 ^ 53 + 1\<close> has 54
  significant bits: it is converted with no diagnostic, but to the float \<open>2 ^ 53\<close>, which
  is not equal to it.
\<close>

theorem int_to_float_overflows_or_rounds:
  "validate sample_host (PInt (2 ^ 1024)) (PType TFloat) False =
     Inr (PInt (2 ^ 1024),
          [DiagF '''' (OverflowError ''int too large to convert to float'')])
   \<and> validate sample_host (PInt (2 ^ 53 + 1)) (PType TFloat) False =
     Inr (PFloat (2 ^ 53), [])
   \<and> \<not> py_eq (PFloat (2 ^ 53)) (PInt (2 ^ 53 + 1))"
proof -
  have big: "2 ^ 1024 - 2 ^ 970 \<le> \<bar>(2::int) ^ 1024\<bar>" by simp
  have v1: "validate sample_host (PInt (2 ^ 1024)) (PType TFloat) False =
     Inr (PInt (2 ^ 1024),
          [DiagF '''' (OverflowError ''int too large to convert to float'')])"
    using py_float_out_of_range [OF big]
    by (simp add: validate_def attempt_def py_set_def)
  have bl: "bit_length 9007199254740993 = 54" by (simp add: bit_length.simps)
  have r: "round53 9007199254740993 = 9007199254740992"
    unfolding round53_def Let_def bl by simp
  have small: "\<bar>(2::int) ^ 53 + 1\<bar> < 2 ^ 1024 - 2 ^ 970" by simp
  have a: "nat \<bar>(2::int) ^ 53 + 1\<bar> = 9007199254740993" by simp
  have "py_float (2 ^ 53 + 1) = Inr (2 ^ 53)"
    unfolding py_float_in_range [OF small] a r by simp
  then have v2: "validate sample_host (PInt (2 ^ 53 + 1)) (PType TFloat) False =
     Inr (PFloat (2 ^ 53), [])"
    by (simp add: validate_def attempt_def py_set_def)
  have ne: "\<not> py_eq (PFloat (2 ^ 53)) (PInt (2 ^ 53 + 1))" by simp
  from v1 v2 ne show ?thesis by (intro conjI)
qed

text \<open>
  C7. The scheme is the dictionary \<open>{a: T}\<close> and the value \<open>{a: x, b: y}\<close>, with \<open>b\<close> another key
  than \<open>a\<close> and \<open>x\<close> matching \<open>T\<close> (no diagnostic at the path of \<open>a\<close>). When extra keys are
  rejected, the only diagnostic is \<open>(path, 'extra key', b)\<close> at the path of the dictionary
  itself (\<open>''\<close> for \<open>validate\<close>), and the output has the key \<open>a\<close> only. When they are allowed,
  there is no diagnostic and the output has \<open>b\<close> with the value \<open>y\<close> itself.
\<close>

theorem extra_key_duality:
  assumes "a \<noteq> b"
  shows "(snd (sub h False x T (path @ ''.'' @ a)) = [] \<longrightarrow>
            sub h False (PDict [(PStr a, x), (PStr b, y)]) (PDict [(PStr a, T)]) path =
              (PDict [(PStr a, fst (sub h False x T (path @ ''.'' @ a)))],
               [Diag3 path ''extra key'' (PStr b)]))
       \<and> (snd (sub h False x T (''.'' @ a)) = [] \<longrightarrow>
            validate h (PDict [(PStr a, x), (PStr b, y)]) (PDict [(PStr a, T)]) False =
              Inr (PDict [(PStr a, fst (sub h False x T (''.'' @ a)))],
                   [Diag3 '''' ''extra key'' (PStr b)]))
       \<and> (snd (sub h True x T (path @ ''.'' @ a)) = [] \<longrightarrow>
            sub h True (PDict [(PStr a, x), (PStr b, y)]) (PDict [(PStr a, T)]) path =
              (PDict [(PStr a, fst (sub h True x T (path @ ''.'' @ a))), (PStr b, y)], []))
       \<and> (snd (sub h True x T (''.'' @ a)) = [] \<longrightarrow>
            validate h (PDict [(PStr a, x), (PStr b, y)]) (PDict [(PStr a, T)]) True =
              Inr (PDict [(PStr a, fst (sub h True x T (''.'' @ a))), (PStr b, y)], []))"
proof -
  have f: "sub h False (PDict [(PStr a, x), (PStr b, y)]) (PDict [(PStr a, T)]) p =
       (PDict [(PStr a, fst (sub h False x T (p @ ''.'' @ a)))],
        [Diag3 p ''extra key'' (PStr b)])"
    if "snd (sub h False x T (p @ ''.'' @ a)) = []" for p
    using that assms
    by (auto simp: attempt_def dict_lookup_def Let_def split: prod.splits)
  have t: "sub h True (PDict [(PStr a, x), (PStr b, y)]) (PDict [(PStr a, T)]) p =
       (PDict [(PStr a, fst (sub h True x T (p @ ''.'' @ a))), (PStr b, y)], [])"
    if "snd (sub h True x T (p @ ''.'' @ a)) = []" for p
    using that assms
    by (auto simp: attempt_def dict_lookup_def Let_def split: prod.splits)
  show ?thesis
    using f [of path] t [of path] f [of "[]"] t [of "[]"]
    by (simp add: validate_def py_set_def)
qed

theorem extra_key_duality_witness:
  "''a'' \<noteq> ''b''
   \<and> snd (sub sample_host False (PInt 1) (PType TInt) (''.'' @ ''a'')) = []
   \<and> validate sample_host (PDict [(PStr ''a'', PInt 1), (PStr ''b'', PInt 2)])
         (PDict [(PStr ''a'', PType TInt)]) False =
       Inr (PDict [(PStr ''a'', PInt 1)], [Diag3 '''' ''extra key'' (PStr ''b'')])
   \<and> snd (sub sample_host True (PInt 1) (PType TInt) (''.'' @ ''a'')) = []
   \<and> validate sample_host (PDict [(PStr ''a'', PInt 1), (PStr ''b'', PInt 2)])
         (PDict [(PStr ''a'', PType TInt)]) True =
       Inr (PDict [(PStr ''a'', PInt 1), (PStr ''b'', PInt 2)], [])"
proof -
  have ne: "''a'' \<noteq> ''b''" by simp
  have f: "sub sample_host False (PInt 1) (PType TInt) (''.'' @ ''a'') = (PInt 1, [])"
    by (simp add: attempt_def)
  have t: "sub sample_host True (PInt 1) (PType TInt) (''.'' @ ''a'') = (PInt 1, [])"
    by (simp add: attempt_def)
  from extra_key_duality [OF ne, where h = sample_host and x = "PInt 1" and T = "PType TInt"
             and y = "PInt 2" and path = "[]"] f t
  show ?thesis by simp
qed

text \<open>
  C8. When a list, tuple, set or frozenset is matched element by element, against a
  \<open>ListOf\<close> or against a sequence of descriptors of the same length that it is not equal
  to, the output is a list, whatever the type of the input: its element \<open>i\<close> is the output
  of matching element \<open>i\<close> of the input at the path extended with \<open>[i]\<close>.
\<close>

theorem sequence_output_is_a_list:
  "(isList obj \<longrightarrow>
      (\<exists>ys. fst (sub h ign obj (PListOf l check) path) = PList ys
            \<and> type_of (fst (sub h ign obj (PListOf l check) path)) = TList
            \<and> length ys = length (elems obj)
            \<and> (\<forall>i < length ys.
                  ys ! i = fst (sub h ign (elems obj ! i) check (index_path path i)))))
   \<and> (isList ex \<and> isList obj \<and> \<not> py_eq obj ex \<and> length (elems ex) = length (elems obj) \<longrightarrow>
      (\<exists>ys. fst (sub h ign obj ex path) = PList ys
            \<and> type_of (fst (sub h ign obj ex path)) = TList
            \<and> length ys = length (elems obj)
            \<and> (\<forall>i < length ys.
                  ys ! i = fst (sub h ign (elems obj ! i) (elems ex ! i) (index_path path i)))))"
proof (intro conjI impI)
  assume "isList obj"
  then show "\<exists>ys. fst (sub h ign obj (PListOf l check) path) = PList ys
            \<and> type_of (fst (sub h ign obj (PListOf l check) path)) = TList
            \<and> length ys = length (elems obj)
            \<and> (\<forall>i < length ys.
                  ys ! i = fst (sub h ign (elems obj ! i) check (index_path path i)))"
    by (simp add: sub_ListOf_seq Let_def nth_enumerate_eq del: sub.simps)
next
  assume "isList ex \<and> isList obj \<and> \<not> py_eq obj ex \<and> length (elems ex) = length (elems obj)"
  then show "\<exists>ys. fst (sub h ign obj ex path) = PList ys
            \<and> type_of (fst (sub h ign obj ex path)) = TList
            \<and> length ys = length (elems obj)
            \<and> (\<forall>i < length ys.
                  ys ! i = fst (sub h ign (elems obj ! i) (elems ex ! i) (index_path path i)))"
    by (simp add: sub_fixed_seq Let_def nth_enumerate_eq del: sub.simps)
qed

theorem sequence_output_is_a_list_witness:
  "isList (PTuple [PInt 1, PInt 2])
   \<and> fst (sub sample_host False (PTuple [PInt 1, PInt 2]) (PListOf 0 (PType TStr)) '''') =
       PList [PInt 1, PInt 2]
   \<and> isList (PTuple [PType TInt, PType TStr]) \<and> isList (PSet [PInt 1, PStr ''a''])
   \<and> \<not> py_eq (PSet [PInt 1, PStr ''a'']) (PTuple [PType TInt, PType TStr])
   \<and> length (elems (PTuple [PType TInt, PType TStr])) = length (elems (PSet [PInt 1, PStr ''a'']))
   \<and> fst (sub sample_host False (PSet [PInt 1, PStr ''a'']) (PTuple [PType TInt, PType TStr]) '''') =
       PList [PInt 1, PStr ''a'']"
  using sequence_output_is_a_list [where obj = "PTuple [PInt 1, PInt 2]" and l = 0 and check = "PType TStr"
              and h = sample_host and ign = False and path = "[]"
              and ex = "PTuple [PType TInt, PType TStr]"]
        sequence_output_is_a_list [where obj = "PSet [PInt 1, PStr ''a'']" and l = 0 and check = "PType TStr"
              and h = sample_host and ign = False and path = "[]"
              and ex = "PTuple [PType TInt, PType TStr]"]
  by (simp add: attempt_def index_path_def enumerate_eq_zip)

text \<open>
  C9. A \<open>bool\<close> is not an \<open>int\<close> for the validator: \<open>type(obj) == int\<close> is false for \<open>True\<close> and
  \<open>False\<close>, so there is no widening to \<open>float\<close>; against \<open>float\<close> the diagnostic is
  \<open>(path, 'not a float', value)\<close>, against \<open>int\<close> it is \<open>(path, 'not a int', value)\<close>.
\<close>

theorem bool_is_not_an_int:
  "sub h ign (PBool b) (PType TFloat) path = (PBool b, [Diag3 path ''not a float'' (PBool b)])
   \<and> sub h ign (PBool b) (PType TInt) path = (PBool b, [Diag3 path ''not a int'' (PBool b)])
   \<and> validate h (PBool b) (PType TFloat) ign =
       Inr (PBool b, [Diag3 '''' ''not a float'' (PBool b)])
   \<and> validate h (PBool b) (PType TInt) ign =
       Inr (PBool b, [Diag3 '''' ''not a int'' (PBool b)])"
  by (simp add: validate_def attempt_def py_set_def)

text \<open>
  C10. A value equal to the descriptor under \<open>==\<close> is accepted with no diagnostic and is
  returned itself, not the descriptor: so are \<open>1.0\<close> and \<open>True\<close> against the literal \<open>1\<close>.
\<close>

theorem equal_value_is_returned_unchanged:
  "(py_eq obj ex \<longrightarrow> sub h ign obj ex path = (obj, []))
   \<and> validate h (PFloat 1) (PInt 1) ign = Inr (PFloat 1, [])
   \<and> validate h (PBool True) (PInt 1) ign = Inr (PBool True, [])"
  by (simp add: validate_def attempt_def sub_equal py_set_def)

theorem equal_value_is_returned_unchanged_witness:
  "py_eq (PFloat 1) (PInt 1)
   \<and> sub sample_host False (PFloat 1) (PInt 1) '''' = (PFloat 1, [])"
  using equal_value_is_returned_unchanged [of "PFloat 1" "PInt 1" sample_host False "''''"]
  by simp

end
